theory Spec2Isabelle
  imports Complex_Main
begin

section \<open>The sliding-window rate limiter of \<^verbatim>\<open>backend/src/rate_limiter.py\<close>\<close>

text \<open>
  The embedding follows \<^verbatim>\<open>src/backend/src/rate_limiter.py\<close>, the variant that keys
  the request log by user and by endpoint.

  \<^item> \<^verbatim>\<open>self.requests\<close> is a \<^verbatim>\<open>defaultdict(lambda: defaultdict(list))\<close>: a lookup
    of a key that was never written yields the empty list. It is modelled as a total
    function from user and endpoint to the list of recorded times, \<open>[]\<close> by default.
  \<^item> A time stamp is a Python float; it is modelled as a real number.
  \<^item> Every call of \<^verbatim>\<open>time.time()\<close> is a parameter of the function that makes it,
    since two readings of the clock in one call need not agree.
  \<^item> \<^verbatim>\<open>self.locks\<close> only serialises threads; the functions below are the bodies
    of the critical sections, run one after the other.
\<close>

subsection \<open>The limiter's state\<close>

record RateLimiter =
  requests :: "string \<Rightarrow> string \<Rightarrow> real list"

definition init :: RateLimiter where
  "init = \<lparr> requests = (\<lambda>user_id endpoint. []) \<rparr>"

subsection \<open>The methods\<close>

text \<open>\<^verbatim>\<open>_clean_old_requests\<close>: keep the times with \<^verbatim>\<open>now - req_time < window\<close>.\<close>

definition clean_old_requests ::
  "string \<Rightarrow> string \<Rightarrow> int \<Rightarrow> real \<Rightarrow> RateLimiter \<Rightarrow> RateLimiter" where
  "clean_old_requests user_id endpoint window now rl =
     rl\<lparr> requests := (requests rl)(user_id := (requests rl user_id)(endpoint :=
       [req_time \<leftarrow> requests rl user_id endpoint. now - req_time < real_of_int window])) \<rparr>"

text \<open>
  \<^verbatim>\<open>is_rate_limited\<close>: \<open>now\<close> is the clock reading of the cleaning, \<open>now'\<close> the one
  recorded by \<^verbatim>\<open>append(time.time())\<close>. The result is the returned flag and the state.
\<close>

definition is_rate_limited ::
  "string \<Rightarrow> string \<Rightarrow> int \<Rightarrow> int \<Rightarrow> real \<Rightarrow> real \<Rightarrow> RateLimiter \<Rightarrow> bool \<times> RateLimiter" where
  "is_rate_limited user_id endpoint max_requests window now now' rl =
     (let rl1 = clean_old_requests user_id endpoint window now rl in
      if int (length (requests rl1 user_id endpoint)) \<ge> max_requests then (True, rl1)
      else (False, rl1\<lparr> requests := (requests rl1)(user_id := (requests rl1 user_id)(endpoint :=
              requests rl1 user_id endpoint @ [now'])) \<rparr>))"

text \<open>\<^verbatim>\<open>get_remaining_requests\<close> cleans first, so it returns a state as well.\<close>

definition get_remaining_requests ::
  "string \<Rightarrow> string \<Rightarrow> int \<Rightarrow> int \<Rightarrow> real \<Rightarrow> RateLimiter \<Rightarrow> int \<times> RateLimiter" where
  "get_remaining_requests user_id endpoint max_requests window now rl =
     (let rl1 = clean_old_requests user_id endpoint window now rl in
      (max 0 (max_requests - int (length (requests rl1 user_id endpoint))), rl1))"

text \<open>
  \<^verbatim>\<open>get_reset_time\<close> does not clean and does not write. \<^verbatim>\<open>min\<close> of a non-empty
  list is \<open>Min (set xs)\<close>; the fold below computes it.
\<close>

fun list_min :: "real \<Rightarrow> real list \<Rightarrow> real" where
  "list_min m [] = m"
| "list_min m (x # xs) = list_min (min m x) xs"

definition get_reset_time :: "string \<Rightarrow> string \<Rightarrow> int \<Rightarrow> real \<Rightarrow> RateLimiter \<Rightarrow> real" where
  "get_reset_time user_id endpoint window now rl =
     (case requests rl user_id endpoint of
        [] \<Rightarrow> 0
      | t # ts \<Rightarrow> (let oldest_request = list_min t ts in
                   max 0 (oldest_request + real_of_int window - now)))"

subsection \<open>Python's \<^verbatim>\<open>str\<close> methods and conversions used by the dependencies\<close>

text \<open>\<^verbatim>\<open>str(n)\<close> for an integer: its decimal digits, after a minus sign when negative.\<close>

definition digit_char :: "nat \<Rightarrow> char" where
  "digit_char d = char_of (48 + d)"

fun str_nat :: "nat \<Rightarrow> string" where
  "str_nat n = (if n < 10 then [digit_char n] else str_nat (n div 10) @ [digit_char (n mod 10)])"

declare str_nat.simps [simp del]

definition str_int :: "int \<Rightarrow> string" where
  "str_int i = (if i < 0 then CHR ''-'' # str_nat (nat (- i)) else str_nat (nat i))"

text \<open>\<^verbatim>\<open>int(x)\<close> for a float: truncation towards zero.\<close>

definition int_of_float :: "real \<Rightarrow> int" where
  "int_of_float x = (if 0 \<le> x then \<lfloor>x\<rfloor> else \<lceil>x\<rceil>)"

text \<open>
  \<^verbatim>\<open>s.split(",")\<close>: the pieces between the separators; the result is never empty
  (\<^verbatim>\<open>"".split(",") == [""]\<close>).
\<close>

fun str_split :: "string \<Rightarrow> char \<Rightarrow> string list" where
  "str_split [] sep = [[]]"
| "str_split (c # cs) sep =
     (if c = sep then [] # str_split cs sep
      else (case str_split cs sep of [] \<Rightarrow> [[c]] | w # ws \<Rightarrow> (c # w) # ws))"

text \<open>
  \<^verbatim>\<open>s.strip()\<close>: drop the white space at both ends. A header value is decoded as
  Latin-1, one character a byte; the white space characters of Python below 256 are
  the codes 9 to 13, 28 to 32, 133 and 160.
\<close>

definition isspace :: "char \<Rightarrow> bool" where
  "isspace c = (let n = (of_char c :: nat) in
     (9 \<le> n \<and> n \<le> 13) \<or> (28 \<le> n \<and> n \<le> 32) \<or> n = 133 \<or> n = 160)"

definition strip :: "string \<Rightarrow> string" where
  "strip s = rev (dropWhile isspace (rev (dropWhile isspace s)))"

subsection \<open>Requests and errors\<close>

text \<open>
  Of a FastAPI request the code reads \<^verbatim>\<open>request.headers.get(name)\<close> and
  \<^verbatim>\<open>request.client\<close>, which is \<^verbatim>\<open>None\<close> or an address with a \<^verbatim>\<open>host\<close>.
\<close>

record Address =
  host :: string

record Request =
  headers :: "string \<rightharpoonup> string"
  client :: "Address option"

text \<open>
  The exceptions: \<^verbatim>\<open>IndexError\<close> of a subscript \<^verbatim>\<open>[0]\<close>, and FastAPI's
  \<^verbatim>\<open>HTTPException(status_code, detail, headers)\<close>; the headers are a dictionary
  literal, kept in the order written.
\<close>

datatype error = IndexError | HTTPException int string "(string \<times> string) list"

definition getitem0 :: "'a list \<Rightarrow> error + 'a" where
  "getitem0 xs = (case xs of [] \<Rightarrow> Inl IndexError | x # _ \<Rightarrow> Inr x)"

subsection \<open>\<^verbatim>\<open>get_user_id\<close>\<close>

text \<open>
  \<^verbatim>\<open>if forwarded:\<close> holds for a header that is present and not the empty string;
  the first case below is that test.
\<close>

definition get_user_id :: "Request \<Rightarrow> error + string" where
  "get_user_id request =
     (case headers request ''X-Forwarded-For'' of
        Some (c # cs) \<Rightarrow>
          (case getitem0 (str_split (c # cs) CHR '','') of
             Inl err \<Rightarrow> Inl err
           | Inr first \<Rightarrow> Inr (strip first))
      | _ \<Rightarrow>
          (case client request of
             Some a \<Rightarrow> Inr (host a)
           | None \<Rightarrow> Inr ''unknown''))"

subsection \<open>\<^verbatim>\<open>create_rate_limiter\<close> and the dependency it returns\<close>

text \<open>
  \<^verbatim>\<open>rate_limit_dependency\<close>, the closure over \<open>limit\<close>, \<open>endpoint\<close> and \<open>window\<close>.
  \<open>clock i\<close> is the \<open>i\<close>-th reading of \<^verbatim>\<open>time.time()\<close> during the call: a denied
  call reads the clock in the cleaning and in \<^verbatim>\<open>get_reset_time\<close>; an admitted call
  reads it in the cleaning, in the append, in the cleaning of
  \<^verbatim>\<open>get_remaining_requests\<close> and in \<^verbatim>\<open>get_reset_time\<close>.
  The result is the raised exception, or the returned \<^verbatim>\<open>user_id\<close> with the dictionary
  stored in \<^verbatim>\<open>request.state.rate_limit_headers\<close>; and the limiter's state.
\<close>

definition rate_limit_dependency ::
  "int \<Rightarrow> string \<Rightarrow> int \<Rightarrow> (nat \<Rightarrow> real) \<Rightarrow> Request \<Rightarrow> RateLimiter
     \<Rightarrow> (error + string \<times> (string \<times> string) list) \<times> RateLimiter" where
  "rate_limit_dependency limit endpoint window clock request rl =
     (case get_user_id request of
        Inl err \<Rightarrow> (Inl err, rl)
      | Inr user_id \<Rightarrow>
          (case is_rate_limited user_id endpoint limit window (clock 0) (clock 1) rl of
             (True, rl1) \<Rightarrow>
               (let reset_time = get_reset_time user_id endpoint window (clock 1) rl1;
                    hdrs = [(''X-RateLimit-Limit'', str_int limit),
                            (''X-RateLimit-Remaining'', ''0''),
                            (''X-RateLimit-Reset'', str_int (int_of_float reset_time)),
                            (''Retry-After'', str_int (int_of_float reset_time))]
                in (Inl (HTTPException 429
                      (''Rate limit exceeded. Try again in '' @ str_int (int_of_float reset_time)
                         @ '' seconds.'') hdrs), rl1))
           | (False, rl1) \<Rightarrow>
               (case get_remaining_requests user_id endpoint limit window (clock 2) rl1 of
                  (remaining, rl2) \<Rightarrow>
                    (let reset_time = get_reset_time user_id endpoint window (clock 3) rl2
                     in (Inr (user_id,
                              [(''X-RateLimit-Limit'', str_int limit),
                               (''X-RateLimit-Remaining'', str_int remaining),
                               (''X-RateLimit-Reset'', str_int (int_of_float reset_time))]),
                         rl2)))))"

text \<open>
  \<^verbatim>\<open>create_rate_limiter\<close> builds the closure and returns it; it has no
  \<^verbatim>\<open>raise\<close>. The limiter object it closes over is the state the dependency is run on.
\<close>

definition create_rate_limiter ::
  "int \<Rightarrow> string \<Rightarrow> int \<Rightarrow>
     error + ((nat \<Rightarrow> real) \<Rightarrow> Request \<Rightarrow> RateLimiter
                \<Rightarrow> (error + string \<times> (string \<times> string) list) \<times> RateLimiter)" where
  "create_rate_limiter limit endpoint window = Inr (rate_limit_dependency limit endpoint window)"

subsection \<open>Sequences of calls\<close>

text \<open>
  A sequence of \<^verbatim>\<open>is_rate_limited\<close> calls for one user and endpoint, in arrival
  order; each call comes with its \<open>max_requests\<close>, its \<open>window\<close> and its two clock
  readings. The result is the list of the returned flags and the last state.
\<close>

fun is_rate_limited_seq ::
  "string \<Rightarrow> string \<Rightarrow> (int \<times> int \<times> real \<times> real) list \<Rightarrow> RateLimiter
     \<Rightarrow> bool list \<times> RateLimiter" where
  "is_rate_limited_seq user_id endpoint [] rl = ([], rl)"
| "is_rate_limited_seq user_id endpoint ((max_requests, window, now, now') # calls) rl =
     (case is_rate_limited user_id endpoint max_requests window now now' rl of
        (limited, rl1) \<Rightarrow>
          (case is_rate_limited_seq user_id endpoint calls rl1 of
             (flags, rl2) \<Rightarrow> (limited # flags, rl2)))"

text \<open>The entries of a log that the cleaning at time \<open>now\<close> keeps.\<close>

abbreviation (input) "active W now xs \<equiv> [t \<leftarrow> xs. now - t < real_of_int W]"

text \<open>
  The worked scenario: \<open>max_requests = 3\<close>, \<open>window = 60\<close>, one key, the log empty at
  first. Calls at the times 0, 1, 2, 3 and 61, each reading the clock once; after each
  admitted call the remaining count is read at the same time, after the denied one the
  reset time. The result: the five flags, the four remaining counts, the reset time
  read at 3, and the log after the call at 61.
\<close>

definition worked_scenario :: "bool list \<times> int list \<times> real \<times> real list" where
  "worked_scenario =
     (let u = ''10.0.0.1''; e = ''search'';
          (r0, s0) = is_rate_limited u e 3 60 0 0 init;
          (n0, s0') = get_remaining_requests u e 3 60 0 s0;
          (r1, s1) = is_rate_limited u e 3 60 1 1 s0';
          (n1, s1') = get_remaining_requests u e 3 60 1 s1;
          (r2, s2) = is_rate_limited u e 3 60 2 2 s1';
          (n2, s2') = get_remaining_requests u e 3 60 2 s2;
          (r3, s3) = is_rate_limited u e 3 60 3 3 s2';
          reset3 = get_reset_time u e 60 3 s3;
          (r4, s4) = is_rate_limited u e 3 60 61 61 s3;
          (n4, s4') = get_remaining_requests u e 3 60 61 s4
      in ([r0, r1, r2, r3, r4], [n0, n1, n2, n4], reset3, requests s4 u e))"

text \<open>A clock that reads \<open>t\<close> at every reading: all readings at one instant.\<close>

definition frozen_clock :: "real \<Rightarrow> nat \<Rightarrow> real" where
  "frozen_clock t i = t"

text \<open>
  The first, left-most entry of a comma-separated chain, in the spec's words: the
  characters before the first comma. It is compared below with
  \<^verbatim>\<open>forwarded.split(",")[0]\<close> of the source.
\<close>

definition first_entry :: "string \<Rightarrow> string" where
  "first_entry chain = takeWhile (\<lambda>c. c \<noteq> CHR '','') chain"

section \<open>Properties\<close>

subsection \<open>What each method does to the state\<close>


lemma requests_clean_old_requests:
  "requests (clean_old_requests u e W now rl) u' e' =
     (if u' = u \<and> e' = e then [t \<leftarrow> requests rl u e. now - t < real_of_int W]
      else requests rl u' e')"
  by (simp add: clean_old_requests_def)

lemma fst_is_rate_limited:
  "fst (is_rate_limited u e M W now now' rl) =
     (M \<le> int (length [t \<leftarrow> requests rl u e. now - t < real_of_int W]))"
  by (simp add: is_rate_limited_def Let_def requests_clean_old_requests)

lemma requests_is_rate_limited:
  "requests (snd (is_rate_limited u e M W now now' rl)) u' e' =
     (if u' = u \<and> e' = e
      then (if M \<le> int (length [t \<leftarrow> requests rl u e. now - t < real_of_int W])
            then [t \<leftarrow> requests rl u e. now - t < real_of_int W]
            else [t \<leftarrow> requests rl u e. now - t < real_of_int W] @ [now'])
      else requests rl u' e')"
  by (simp add: is_rate_limited_def Let_def requests_clean_old_requests)

lemma fst_get_remaining_requests:
  "fst (get_remaining_requests u e M W now rl) =
     max 0 (M - int (length [t \<leftarrow> requests rl u e. now - t < real_of_int W]))"
  by (simp add: get_remaining_requests_def Let_def requests_clean_old_requests)

lemma requests_get_remaining_requests:
  "requests (snd (get_remaining_requests u e M W now rl)) u' e' =
     (if u' = u \<and> e' = e then [t \<leftarrow> requests rl u e. now - t < real_of_int W]
      else requests rl u' e')"
  by (simp add: get_remaining_requests_def Let_def requests_clean_old_requests)

lemma RateLimiter_eqI: "(\<And>u e. requests a u e = requests b u e) \<Longrightarrow> a = (b :: RateLimiter)"
  by (cases a, cases b) (auto intro!: ext)

lemma is_rate_limited_seq_append:
  "is_rate_limited_seq u e (cs @ ds) rl =
     (case is_rate_limited_seq u e cs rl of
        (fs, rl1) \<Rightarrow> (case is_rate_limited_seq u e ds rl1 of (gs, rl2) \<Rightarrow> (fs @ gs, rl2)))"
  by (induction cs arbitrary: rl) (auto split: prod.splits)


lemma burst_step:
  assumes "0 < W" and "active W now (requests rl u e) = replicate j now"
  shows "fst (is_rate_limited u e M W now now rl) = (M \<le> int j)"
    and "requests (snd (is_rate_limited u e M W now now rl)) u e =
           (if M \<le> int j then replicate j now else replicate (Suc j) now)"
  using assms by (simp_all add: fst_is_rate_limited requests_is_rate_limited replicate_append_same)

lemma burst_flags:
  assumes "0 < W" and "active W now (requests rl u e) = replicate j now"
  shows "fst (is_rate_limited_seq u e (replicate n (M, W, now, now)) rl) =
           replicate (min n (nat M - j)) False @ replicate (n - (nat M - j)) True"
  using assms(2)
proof (induction n arbitrary: rl j)
  case 0
  then show ?case by simp
next
  case (Suc n)
  let ?r = "is_rate_limited u e M W now now rl"
  have f: "fst ?r = (M \<le> int j)" and l: "requests (snd ?r) u e =
           (if M \<le> int j then replicate j now else replicate (Suc j) now)"
    using burst_step [OF assms(1) Suc.prems] by simp_all
  show ?case
  proof (cases "M \<le> int j")
    case True
    then have a: "active W now (requests (snd ?r) u e) = replicate j now"
      using l assms(1) by simp
    have "nat M - j = 0" using True by simp
    then show ?thesis using Suc.IH [OF a] f True
      by (simp add: split_beta replicate_append_same)
  next
    case False
    then have a: "active W now (requests (snd ?r) u e) = replicate (Suc j) now"
      using l assms(1) by simp
    have "nat M - j = Suc (nat M - Suc j)" using False by linarith
    then show ?thesis using Suc.IH [OF a] f False
      by (simp add: split_beta)
  qed
qed

lemma burst_log:
  assumes "0 < W" and "active W now (requests rl u e) = replicate j now"
  shows "active W now (requests (snd (is_rate_limited_seq u e (replicate n (M, W, now, now)) rl)) u e) =
           replicate (j + min n (nat M - j)) now"
  using assms(2)
proof (induction n arbitrary: rl j)
  case 0
  then show ?case by simp
next
  case (Suc n)
  let ?r = "is_rate_limited u e M W now now rl"
  have l: "requests (snd ?r) u e =
           (if M \<le> int j then replicate j now else replicate (Suc j) now)"
    using burst_step [OF assms(1) Suc.prems] by simp_all
  show ?case
  proof (cases "M \<le> int j")
    case True
    then have a: "active W now (requests (snd ?r) u e) = replicate j now"
      using l assms(1) by simp
    have "nat M - j = 0" using True by simp
    then show ?thesis using Suc.IH [OF a] 
      by (simp add: split_beta)
  next
    case False
    then have a: "active W now (requests (snd ?r) u e) = replicate (Suc j) now"
      using l assms(1) by simp
    have "nat M - j = Suc (nat M - Suc j)" using False by linarith
    then show ?thesis using Suc.IH [OF a]
      by (simp add: split_beta)
  qed
qed


lemma is_rate_limited_seq_Suc:
  "is_rate_limited_seq u e (replicate (Suc k) c) rl =
     (case is_rate_limited_seq u e (replicate k c) rl of
        (fs, rl1) \<Rightarrow> (case is_rate_limited_seq u e [c] rl1 of (gs, rl2) \<Rightarrow> (fs @ gs, rl2)))"
  using is_rate_limited_seq_append [of u e "replicate k c" "[c]" rl]
  by (simp add: replicate_append_same)

lemma snd_is_rate_limited_seq_Suc:
  "snd (is_rate_limited_seq u e (replicate (Suc k) (M, W, now, now')) rl) =
     snd (is_rate_limited u e M W now now' (snd (is_rate_limited_seq u e (replicate k (M, W, now, now')) rl)))"
  by (simp only: is_rate_limited_seq_Suc) (simp add: split_beta)

lemma is_rate_limited_pruned:
  assumes "0 < W"
  shows "active W now (requests (snd (is_rate_limited u e M W now now rl)) u e) =
           requests (snd (is_rate_limited u e M W now now rl)) u e"
  using assms by (simp add: requests_is_rate_limited)

lemma is_rate_limited_denied_same:
  assumes "active W now (requests rl u e) = requests rl u e"
    and "fst (is_rate_limited u e M W now now' rl)"
  shows "snd (is_rate_limited u e M W now now' rl) = rl"
proof (rule RateLimiter_eqI)
  fix u' e'
  show "requests (snd (is_rate_limited u e M W now now' rl)) u' e' = requests rl u' e'"
    using assms by (simp add: requests_is_rate_limited fst_is_rate_limited)
qed

subsection \<open>A burst of calls at one instant\<close>

text \<open>
  Claim C1. Let \<open>1 \<le> M\<close>, \<open>0 < W\<close> and \<open>N > M\<close>, and let the log of the key hold
  no entry that is active at \<open>now\<close>. Of \<open>N\<close> calls of \<^verbatim>\<open>is_rate_limited\<close> for the
  key, all at the instant \<open>now\<close>, the first \<open>M\<close> in arrival order return \<open>False\<close> and
  each appends \<open>now\<close> to the cleaned log; the other \<open>N - M\<close> return \<open>True\<close>, leave the
  state as it is, and do not change the remaining count.
\<close>

theorem burst_admits_exactly_max_requests:
  assumes "1 \<le> M" and "0 < W" and "nat M < N"
    and "[t \<leftarrow> requests rl u e. now - t < real_of_int W] = []"
  shows "fst (is_rate_limited_seq u e (replicate N (M, W, now, now)) rl) =
           replicate (nat M) False @ replicate (N - nat M) True
         \<and> (\<forall>k<N.
              let before = snd (is_rate_limited_seq u e (replicate k (M, W, now, now)) rl);
                  (limited, after) = is_rate_limited u e M W now now before
              in after = snd (is_rate_limited_seq u e (replicate (Suc k) (M, W, now, now)) rl)
                 \<and> (if k < nat M
                    then \<not> limited
                       \<and> requests after u e =
                           [t \<leftarrow> requests before u e. now - t < real_of_int W] @ [now]
                       \<and> requests after u e = replicate (Suc k) now
                    else limited
                       \<and> after = before
                       \<and> fst (get_remaining_requests u e M W now after) =
                           fst (get_remaining_requests u e M W now before)))"
proof (intro conjI allI impI)
  have a0: "active W now (requests rl u e) = replicate 0 now"
    using assms(4) by simp
  show "fst (is_rate_limited_seq u e (replicate N (M, W, now, now)) rl) =
           replicate (nat M) False @ replicate (N - nat M) True"
    using burst_flags [OF assms(2) a0, of N M] assms(3) by simp
next
  fix k assume "k < N"
  define before where "before = snd (is_rate_limited_seq u e (replicate k (M, W, now, now)) rl)"
  define r where "r = is_rate_limited u e M W now now before"
  have a0: "active W now (requests rl u e) = replicate 0 now"
    using assms(4) by simp
  have act: "active W now (requests before u e) = replicate (min k (nat M)) now"
    using burst_log [OF assms(2) a0, of k M] by (simp add: before_def)
  have seq: "snd r = snd (is_rate_limited_seq u e (replicate (Suc k) (M, W, now, now)) rl)"
    by (simp only: snd_is_rate_limited_seq_Suc r_def before_def)
  have flag: "fst r = (M \<le> int (min k (nat M)))"
    and log: "requests (snd r) u e =
           (if M \<le> int (min k (nat M)) then replicate (min k (nat M)) now
            else replicate (Suc (min k (nat M))) now)"
    using burst_step [OF assms(2) act, of M] by (simp_all add: r_def)
  have main: "if k < nat M
        then \<not> fst r
           \<and> requests (snd r) u e = active W now (requests before u e) @ [now]
           \<and> requests (snd r) u e = replicate (Suc k) now
        else fst r \<and> snd r = before
           \<and> fst (get_remaining_requests u e M W now (snd r)) =
               fst (get_remaining_requests u e M W now before)"
  proof (cases "k < nat M")
    case True
    then have "\<not> M \<le> int (min k (nat M))" by simp
    moreover have "min k (nat M) = k" using True by simp
    ultimately show ?thesis using True flag log act
      by (simp add: replicate_append_same)
  next
    case False
    then have le: "M \<le> int (min k (nat M))" by simp
    from False assms(1) obtain k' where k': "k = Suc k'" by (cases k) auto
    have pr: "active W now (requests before u e) = requests before u e"
      unfolding before_def k' snd_is_rate_limited_seq_Suc
      by (rule is_rate_limited_pruned [OF assms(2)])
    have "snd r = before"
      unfolding r_def
      by (rule is_rate_limited_denied_same [OF pr]) (use flag le in \<open>simp add: r_def\<close>)
    then show ?thesis using False flag le by simp
  qed
  show "let before = snd (is_rate_limited_seq u e (replicate k (M, W, now, now)) rl);
                  (limited, after) = is_rate_limited u e M W now now before
              in after = snd (is_rate_limited_seq u e (replicate (Suc k) (M, W, now, now)) rl)
                 \<and> (if k < nat M
                    then \<not> limited
                       \<and> requests after u e =
                           [t \<leftarrow> requests before u e. now - t < real_of_int W] @ [now]
                       \<and> requests after u e = replicate (Suc k) now
                    else limited
                       \<and> after = before
                       \<and> fst (get_remaining_requests u e M W now after) =
                           fst (get_remaining_requests u e M W now before))"
    unfolding Let_def split_beta before_def [symmetric] r_def [symmetric]
    using seq main by (rule conjI)
qed


theorem burst_admits_exactly_max_requests_witness:
  "(1::int) \<le> 2 \<and> (0::int) < 60 \<and> nat 2 < (3::nat)
   \<and> [t \<leftarrow> requests init ''10.0.0.1'' ''search''. 100 - t < real_of_int 60] = []
   \<and> fst (is_rate_limited_seq ''10.0.0.1'' ''search'' (replicate 3 (2, 60, 100, 100)) init) =
        [False, False, True]"
proof -
  have h: "[t \<leftarrow> requests init ''10.0.0.1'' ''search''. 100 - t < real_of_int 60] = []"
    by (simp add: init_def)
  have "fst (is_rate_limited_seq ''10.0.0.1'' ''search'' (replicate 3 (2, 60, 100, 100)) init) =
          replicate (nat 2) False @ replicate (3 - nat 2) True"
    using burst_admits_exactly_max_requests [where M = 2 and W = 60 and N = 3 and rl = init
        and u = "''10.0.0.1''" and e = "''search''" and now = 100, THEN conjunct1] h
    by simp
  then show ?thesis using h by (simp add: eval_nat_numeral)
qed

subsection \<open>The worked scenario\<close>

lemma worked_scenario_value:
  "worked_scenario = ([False, False, False, True, False], [2, 1, 0, 1], 57, [2, 61])"
proof -
  let ?u = "''10.0.0.1''" and ?e = "''search''"
  define s0 where "s0 = snd (is_rate_limited ?u ?e 3 60 0 0 init)"
  have s0: "fst (is_rate_limited ?u ?e 3 60 0 0 init) = False" "requests s0 ?u ?e = [0]"
    by (simp_all add: s0_def fst_is_rate_limited requests_is_rate_limited init_def)
  define s0' where "s0' = snd (get_remaining_requests ?u ?e 3 60 0 s0)"
  have s0p: "fst (get_remaining_requests ?u ?e 3 60 0 s0) = 2" "requests s0' ?u ?e = [0]"
    by (simp_all add: s0'_def fst_get_remaining_requests requests_get_remaining_requests s0(2))
  define s1 where "s1 = snd (is_rate_limited ?u ?e 3 60 1 1 s0')"
  have s1: "fst (is_rate_limited ?u ?e 3 60 1 1 s0') = False" "requests s1 ?u ?e = [0, 1]"
    by (simp_all add: s1_def fst_is_rate_limited requests_is_rate_limited s0p(2))
  define s1' where "s1' = snd (get_remaining_requests ?u ?e 3 60 1 s1)"
  have s1p: "fst (get_remaining_requests ?u ?e 3 60 1 s1) = 1" "requests s1' ?u ?e = [0, 1]"
    by (simp_all add: s1'_def fst_get_remaining_requests requests_get_remaining_requests s1(2))
  define s2 where "s2 = snd (is_rate_limited ?u ?e 3 60 2 2 s1')"
  have s2: "fst (is_rate_limited ?u ?e 3 60 2 2 s1') = False" "requests s2 ?u ?e = [0, 1, 2]"
    by (simp_all add: s2_def fst_is_rate_limited requests_is_rate_limited s1p(2))
  define s2' where "s2' = snd (get_remaining_requests ?u ?e 3 60 2 s2)"
  have s2p: "fst (get_remaining_requests ?u ?e 3 60 2 s2) = 0" "requests s2' ?u ?e = [0, 1, 2]"
    by (simp_all add: s2'_def fst_get_remaining_requests requests_get_remaining_requests s2(2))
  define s3 where "s3 = snd (is_rate_limited ?u ?e 3 60 3 3 s2')"
  have s3: "fst (is_rate_limited ?u ?e 3 60 3 3 s2') = True" "requests s3 ?u ?e = [0, 1, 2]"
    by (simp_all add: s3_def fst_is_rate_limited requests_is_rate_limited s2p(2))
  have reset3: "get_reset_time ?u ?e 60 3 s3 = 57"
    by (simp add: get_reset_time_def s3(2))
  define s4 where "s4 = snd (is_rate_limited ?u ?e 3 60 61 61 s3)"
  have s4: "fst (is_rate_limited ?u ?e 3 60 61 61 s3) = False" "requests s4 ?u ?e = [2, 61]"
    by (simp_all add: s4_def fst_is_rate_limited requests_is_rate_limited s3(2))
  define s4' where "s4' = snd (get_remaining_requests ?u ?e 3 60 61 s4)"
  have s4p: "fst (get_remaining_requests ?u ?e 3 60 61 s4) = 1" "requests s4' ?u ?e = [2, 61]"
    by (simp_all add: s4'_def fst_get_remaining_requests requests_get_remaining_requests s4(2))
  show ?thesis
    unfolding worked_scenario_def Let_def split_beta
    unfolding s0_def [symmetric] s0'_def [symmetric] s1_def [symmetric] s1'_def [symmetric] s2_def [symmetric] s2'_def [symmetric] s3_def [symmetric] s4_def [symmetric] s4'_def [symmetric]
    by (simp add: s0 s0p s1 s1p s2 s2p s3 s4 s4p reset3)
qed

text \<open>
  Claim C3, as the code has it. The calls at the times 0, 1 and 2 are admitted, with
  the remaining counts 2, 1 and 0; the call at 3 is denied, with the reset time 57; the
  call at 61 is admitted. At 61 the entries 0 and 1 have both left the window
  (\<open>61 - 1 = 60\<close> is not below 60), so the log after the call is \<open>[2, 61]\<close> and the
  remaining count is 1.
\<close>

theorem worked_scenario_result:
  "worked_scenario = ([False, False, False, True, False], [2, 1, 0, 1], 57, [2, 61])"
  by (rule worked_scenario_value)

text \<open>
  The scenario as the claim states it, with the log \<open>{1, 2, 61}\<close> and the remaining
  count 0 after the call at 61, is not what the code computes: the remaining counts are
  not 2, 1, 0, 0, and the entry 1 is not in the last log.
\<close>

theorem worked_scenario_as_stated_fails:
  "fst (snd worked_scenario) \<noteq> [2, 1, 0, 0]
   \<and> 1 \<notin> set (snd (snd (snd worked_scenario)))"
  by (simp add: worked_scenario_value)

subsection \<open>The reset time and the responses of the dependency\<close>

lemma list_min_Min: "list_min m xs = Min (insert m (set xs))"
proof (induction xs arbitrary: m)
  case Nil
  then show ?case by simp
next
  case (Cons x xs)
  have "Min (insert (min m x) (set xs)) = Min (insert m (insert x (set xs)))"
    by (cases "set xs = {}") (simp_all add: min.assoc)
  then show ?case by (simp add: Cons.IH)
qed

lemma get_reset_time_eq:
  "get_reset_time u e W now rl =
     (if requests rl u e = [] then 0
      else max 0 (Min (set (requests rl u e)) + real_of_int W - now))"
  by (cases "requests rl u e") (simp_all add: get_reset_time_def list_min_Min)

lemma get_reset_time_nonneg: "0 \<le> get_reset_time u e W now rl"
  by (simp add: get_reset_time_eq)

lemma int_of_float_nonneg: "0 \<le> x \<Longrightarrow> int_of_float x = \<lfloor>x\<rfloor>"
  by (simp add: int_of_float_def)


lemma rate_limit_dependency_denied:
  assumes "get_user_id request = Inr user_id"
    and "fst (is_rate_limited user_id endpoint limit window (clock 0) (clock 1) rl)"
  shows "rate_limit_dependency limit endpoint window clock request rl =
     (Inl (HTTPException 429
        (''Rate limit exceeded. Try again in ''
           @ str_int (int_of_float (get_reset_time user_id endpoint window (clock 1)
                (snd (is_rate_limited user_id endpoint limit window (clock 0) (clock 1) rl))))
           @ '' seconds.'')
        [(''X-RateLimit-Limit'', str_int limit),
         (''X-RateLimit-Remaining'', ''0''),
         (''X-RateLimit-Reset'', str_int (int_of_float (get_reset_time user_id endpoint window
              (clock 1) (snd (is_rate_limited user_id endpoint limit window (clock 0) (clock 1) rl))))),
         (''Retry-After'', str_int (int_of_float (get_reset_time user_id endpoint window
              (clock 1) (snd (is_rate_limited user_id endpoint limit window (clock 0) (clock 1) rl)))))]),
      snd (is_rate_limited user_id endpoint limit window (clock 0) (clock 1) rl))"
proof -
  obtain b rl1 where r: "is_rate_limited user_id endpoint limit window (clock 0) (clock 1) rl = (b, rl1)"
    by (cases "is_rate_limited user_id endpoint limit window (clock 0) (clock 1) rl")
  with assms(2) have "b" by simp
  with r assms(1) show ?thesis
    by (simp add: rate_limit_dependency_def Let_def)
qed

lemma rate_limit_dependency_admitted:
  assumes "get_user_id request = Inr user_id"
    and "\<not> fst (is_rate_limited user_id endpoint limit window (clock 0) (clock 1) rl)"
  shows "rate_limit_dependency limit endpoint window clock request rl =
     (Inr (user_id,
        [(''X-RateLimit-Limit'', str_int limit),
         (''X-RateLimit-Remaining'', str_int (fst (get_remaining_requests user_id endpoint limit
              window (clock 2)
              (snd (is_rate_limited user_id endpoint limit window (clock 0) (clock 1) rl))))),
         (''X-RateLimit-Reset'', str_int (int_of_float (get_reset_time user_id endpoint window
              (clock 3) (snd (get_remaining_requests user_id endpoint limit window (clock 2)
              (snd (is_rate_limited user_id endpoint limit window (clock 0) (clock 1) rl)))))))]),
      snd (get_remaining_requests user_id endpoint limit window (clock 2)
              (snd (is_rate_limited user_id endpoint limit window (clock 0) (clock 1) rl))))"
proof -
  obtain b rl1 where r: "is_rate_limited user_id endpoint limit window (clock 0) (clock 1) rl = (b, rl1)"
    by (cases "is_rate_limited user_id endpoint limit window (clock 0) (clock 1) rl")
  with assms(2) have "\<not> b" by simp
  with r assms(1) show ?thesis
    by (simp add: rate_limit_dependency_def Let_def split_beta)
qed

lemma str_int_1: "str_int 1 = ''1''"
  by code_simp

lemma str_int_56: "str_int 56 = ''56''"
  by code_simp

lemma str_int_57: "str_int 57 = ''57''"
  by code_simp

lemma get_user_id_peer:
  "get_user_id \<lparr>headers = Map.empty, client = Some \<lparr>host = h\<rparr>\<rparr> = Inr h"
  by (simp add: get_user_id_def)

lemma denied_example:
  defines "rl0 \<equiv> snd (is_rate_limited ''10.0.0.1'' ''search'' 1 60 0 0 init)"
  defines "rl1 \<equiv> snd (is_rate_limited ''10.0.0.1'' ''search'' 1 60
                       (frozen_clock (7/2) 0) (frozen_clock (7/2) 1) rl0)"
  shows "fst (is_rate_limited ''10.0.0.1'' ''search'' 1 60
                       (frozen_clock (7/2) 0) (frozen_clock (7/2) 1) rl0)"
    and "get_reset_time ''10.0.0.1'' ''search'' 60 (frozen_clock (7/2) 1) rl1 = 113/2"
    and "get_reset_time ''10.0.0.1'' ''search'' 60 (7/2) rl1 = 113/2"
proof -
  have l0: "requests rl0 ''10.0.0.1'' ''search'' = [0]"
    by (simp add: rl0_def requests_is_rate_limited init_def)
  show "fst (is_rate_limited ''10.0.0.1'' ''search'' 1 60
                       (frozen_clock (7/2) 0) (frozen_clock (7/2) 1) rl0)"
    by (simp add: fst_is_rate_limited l0 frozen_clock_def)
  have l1: "requests rl1 ''10.0.0.1'' ''search'' = [0]"
    by (simp add: rl1_def requests_is_rate_limited l0 frozen_clock_def)
  show "get_reset_time ''10.0.0.1'' ''search'' 60 (frozen_clock (7/2) 1) rl1 = 113/2"
    by (simp add: get_reset_time_def l1 frozen_clock_def)
  show "get_reset_time ''10.0.0.1'' ''search'' 60 (7/2) rl1 = 113/2"
    by (simp add: get_reset_time_def l1)
qed

lemma floor_ceiling_example: "\<lfloor>113/2 :: real\<rfloor> = 56" "\<lceil>113/2 :: real\<rceil> = 57"
  by simp_all

text \<open>
  Claim C4, as the code has it. A denied request raises \<^verbatim>\<open>HTTPException\<close> with the
  status 429, the headers \<^verbatim>\<open>X-RateLimit-Limit\<close> = \<open>limit\<close>,
  \<^verbatim>\<open>X-RateLimit-Remaining\<close> = 0, \<^verbatim>\<open>X-RateLimit-Reset\<close> and
  \<^verbatim>\<open>Retry-After\<close> = \<open>n\<close>, and the text "Rate limit exceeded. Try again in \<open>n\<close>
  seconds.", where \<open>n\<close> is the reset time rounded down: \<^verbatim>\<open>int(reset_time)\<close> truncates,
  and the reset time is never negative.
\<close>

theorem denied_response:
  assumes "get_user_id request = Inr user_id"
    and "fst (is_rate_limited user_id endpoint limit window (clock 0) (clock 1) rl)"
  shows "let rl1 = snd (is_rate_limited user_id endpoint limit window (clock 0) (clock 1) rl);
             reset_seconds = get_reset_time user_id endpoint window (clock 1) rl1;
             n = \<lfloor>reset_seconds\<rfloor>
         in rate_limit_dependency limit endpoint window clock request rl =
              (Inl (HTTPException 429
                 (''Rate limit exceeded. Try again in '' @ str_int n @ '' seconds.'')
                 [(''X-RateLimit-Limit'', str_int limit),
                  (''X-RateLimit-Remaining'', ''0''),
                  (''X-RateLimit-Reset'', str_int n),
                  (''Retry-After'', str_int n)]), rl1)"
  unfolding Let_def rate_limit_dependency_denied [OF assms]
  by (simp add: int_of_float_nonneg get_reset_time_nonneg)

theorem denied_response_witness:
  "get_user_id \<lparr>headers = Map.empty, client = Some \<lparr>host = ''10.0.0.1''\<rparr>\<rparr> = Inr ''10.0.0.1''
   \<and> fst (is_rate_limited ''10.0.0.1'' ''search'' 1 60 (frozen_clock (7/2) 0) (frozen_clock (7/2) 1)
         (snd (is_rate_limited ''10.0.0.1'' ''search'' 1 60 0 0 init)))
   \<and> fst (rate_limit_dependency 1 ''search'' 60 (frozen_clock (7/2))
         \<lparr>headers = Map.empty, client = Some \<lparr>host = ''10.0.0.1''\<rparr>\<rparr>
         (snd (is_rate_limited ''10.0.0.1'' ''search'' 1 60 0 0 init))) =
       Inl (HTTPException 429 ''Rate limit exceeded. Try again in 56 seconds.''
         [(''X-RateLimit-Limit'', ''1''), (''X-RateLimit-Remaining'', ''0''),
          (''X-RateLimit-Reset'', ''56''), (''Retry-After'', ''56'')])"
proof -
  have u: "get_user_id \<lparr>headers = Map.empty, client = Some \<lparr>host = ''10.0.0.1''\<rparr>\<rparr> = Inr ''10.0.0.1''"
    by (rule get_user_id_peer)
  note d = denied_example(1)
  have "fst (rate_limit_dependency 1 ''search'' 60 (frozen_clock (7/2))
         \<lparr>headers = Map.empty, client = Some \<lparr>host = ''10.0.0.1''\<rparr>\<rparr>
         (snd (is_rate_limited ''10.0.0.1'' ''search'' 1 60 0 0 init))) =
       Inl (HTTPException 429 ''Rate limit exceeded. Try again in 56 seconds.''
         [(''X-RateLimit-Limit'', ''1''), (''X-RateLimit-Remaining'', ''0''),
          (''X-RateLimit-Reset'', ''56''), (''Retry-After'', ''56'')])"
    unfolding denied_response [OF u d, unfolded Let_def] denied_example(2) floor_ceiling_example
      str_int_1 str_int_56
    by simp
  with u d show ?thesis by (intro conjI)
qed

text \<open>
  The headers are not the reset time rounded up: with one entry of time 0 in the log,
  \<open>limit = 1\<close> and \<open>window = 60\<close>, a request at time 3.5 is denied with the reset time
  56.5; the response says 56, and 56.5 rounded up is 57.
\<close>

theorem denied_response_rounds_down:
  "fst (rate_limit_dependency 1 ''search'' 60 (frozen_clock (7/2))
         \<lparr>headers = Map.empty, client = Some \<lparr>host = ''10.0.0.1''\<rparr>\<rparr>
         (snd (is_rate_limited ''10.0.0.1'' ''search'' 1 60 0 0 init))) =
       Inl (HTTPException 429 ''Rate limit exceeded. Try again in 56 seconds.''
         [(''X-RateLimit-Limit'', ''1''), (''X-RateLimit-Remaining'', ''0''),
          (''X-RateLimit-Reset'', ''56''), (''Retry-After'', ''56'')])
   \<and> get_reset_time ''10.0.0.1'' ''search'' 60 (7/2)
         (snd (rate_limit_dependency 1 ''search'' 60 (frozen_clock (7/2))
         \<lparr>headers = Map.empty, client = Some \<lparr>host = ''10.0.0.1''\<rparr>\<rparr>
         (snd (is_rate_limited ''10.0.0.1'' ''search'' 1 60 0 0 init)))) = 113/2
   \<and> str_int \<lceil>113/2 :: real\<rceil> = ''57''"
proof -
  have u: "get_user_id \<lparr>headers = Map.empty, client = Some \<lparr>host = ''10.0.0.1''\<rparr>\<rparr> = Inr ''10.0.0.1''"
    by (rule get_user_id_peer)
  note d = denied_example(1)
  have fl: "int_of_float (113/2) = 56"
    by (simp add: int_of_float_def)
  show ?thesis
    unfolding rate_limit_dependency_denied [OF u d] denied_example(2) fl floor_ceiling_example
      str_int_1 str_int_56 str_int_57 fst_conv snd_conv denied_example(3)
    by simp
qed

subsection \<open>The remaining count\<close>



subsection \<open>The reset time\<close>






subsection \<open>Independent keys\<close>

lemma is_rate_limited_seq_frame:
  assumes "u' \<noteq> u \<or> e' \<noteq> e"
  shows "requests (snd (is_rate_limited_seq u e calls rl)) u' e' = requests rl u' e'"
  using assms
proof (induction calls arbitrary: rl)
  case Nil
  then show ?case by simp
next
  case (Cons c calls)
  obtain M W t t' where c: "c = (M, W, t, t')" by (cases c)
  have "requests (snd (is_rate_limited_seq u e (c # calls) rl)) u' e' =
          requests (snd (is_rate_limited u e M W t t' rl)) u' e'"
    using Cons.IH [OF Cons.prems] by (simp add: c split_beta)
  also have "\<dots> = requests rl u' e'"
    using Cons.prems by (auto simp: requests_is_rate_limited)
  finally show ?case .
qed

text \<open>
  Claim C7. A call of \<^verbatim>\<open>is_rate_limited\<close> or of \<^verbatim>\<open>get_remaining_requests\<close> for the
  key \<open>(u, e)\<close> leaves the log of every other key \<open>(u', e')\<close> as it is, and its result
  and its new log depend on the log of \<open>(u, e)\<close> alone. So after any sequence of calls
  for \<open>(u, e)\<close>, also one that uses up its quota, the log, the admission decision and
  the remaining count of \<open>(u', e')\<close> are what they were; for one identity, \<open>e\<close> may be
  \<^verbatim>\<open>search\<close> and \<open>e'\<close> \<^verbatim>\<open>answer\<close> or \<^verbatim>\<open>citations\<close>.
\<close>

theorem operation_keys_independent:
  assumes "u' \<noteq> u \<or> e' \<noteq> e"
  shows "requests (snd (is_rate_limited u e M W now now' rl)) u' e' = requests rl u' e'
       \<and> requests (snd (get_remaining_requests u e M W now rl)) u' e' = requests rl u' e'
       \<and> (\<forall>rl2. requests rl2 u e = requests rl u e \<longrightarrow>
             fst (is_rate_limited u e M W now now' rl2) = fst (is_rate_limited u e M W now now' rl)
           \<and> requests (snd (is_rate_limited u e M W now now' rl2)) u e =
               requests (snd (is_rate_limited u e M W now now' rl)) u e
           \<and> fst (get_remaining_requests u e M W now rl2) =
               fst (get_remaining_requests u e M W now rl)
           \<and> requests (snd (get_remaining_requests u e M W now rl2)) u e =
               requests (snd (get_remaining_requests u e M W now rl)) u e)
       \<and> (let rl' = snd (is_rate_limited_seq u e calls rl)
          in requests rl' u' e' = requests rl u' e'
           \<and> fst (is_rate_limited u' e' M' W' t t' rl') = fst (is_rate_limited u' e' M' W' t t' rl)
           \<and> fst (get_remaining_requests u' e' M' W' t rl') =
               fst (get_remaining_requests u' e' M' W' t rl))"
proof (intro conjI allI impI)
  show "requests (snd (is_rate_limited u e M W now now' rl)) u' e' = requests rl u' e'"
    using assms by (auto simp: requests_is_rate_limited)
  show "requests (snd (get_remaining_requests u e M W now rl)) u' e' = requests rl u' e'"
    using assms by (auto simp: requests_get_remaining_requests)
next
  fix rl2 :: RateLimiter
  assume eq: "requests rl2 u e = requests rl u e"
  show "fst (is_rate_limited u e M W now now' rl2) = fst (is_rate_limited u e M W now now' rl)"
    by (simp add: fst_is_rate_limited eq)
  show "requests (snd (is_rate_limited u e M W now now' rl2)) u e =
               requests (snd (is_rate_limited u e M W now now' rl)) u e"
    by (simp add: requests_is_rate_limited eq)
  show "fst (get_remaining_requests u e M W now rl2) =
               fst (get_remaining_requests u e M W now rl)"
    by (simp add: fst_get_remaining_requests eq)
  show "requests (snd (get_remaining_requests u e M W now rl2)) u e =
               requests (snd (get_remaining_requests u e M W now rl)) u e"
    by (simp add: requests_get_remaining_requests eq)
next
  have fr: "requests (snd (is_rate_limited_seq u e calls rl)) u' e' = requests rl u' e'"
    by (rule is_rate_limited_seq_frame [OF assms])
  show "let rl' = snd (is_rate_limited_seq u e calls rl)
          in requests rl' u' e' = requests rl u' e'
           \<and> fst (is_rate_limited u' e' M' W' t t' rl') = fst (is_rate_limited u' e' M' W' t t' rl)
           \<and> fst (get_remaining_requests u' e' M' W' t rl') =
               fst (get_remaining_requests u' e' M' W' t rl)"
    unfolding Let_def
    by (simp add: fr fst_is_rate_limited fst_get_remaining_requests)
qed

theorem operation_keys_independent_witness:
  "''answer'' \<noteq> ''search''
   \<and> fst (is_rate_limited_seq ''10.0.0.1'' ''search'' (replicate 3 (2, 60, 100, 100)) init) =
        [False, False, True]
   \<and> requests (snd (is_rate_limited_seq ''10.0.0.1'' ''search'' (replicate 3 (2, 60, 100, 100)) init))
        ''10.0.0.1'' ''answer'' = []
   \<and> fst (is_rate_limited ''10.0.0.1'' ''answer'' 2 60 100 100
        (snd (is_rate_limited_seq ''10.0.0.1'' ''search'' (replicate 3 (2, 60, 100, 100)) init))) = False
   \<and> fst (get_remaining_requests ''10.0.0.1'' ''answer'' 2 60 100
        (snd (is_rate_limited_seq ''10.0.0.1'' ''search'' (replicate 3 (2, 60, 100, 100)) init))) = 2"
proof -
  let ?rl' = "snd (is_rate_limited_seq ''10.0.0.1'' ''search'' (replicate 3 (2, 60, 100, 100)) init)"
  have h: "''10.0.0.1'' \<noteq> ''10.0.0.1'' \<or> ''answer'' \<noteq> ''search''" by simp
  have a0: "active 60 100 (requests init ''10.0.0.1'' ''search'') = replicate 0 100"
    by (simp add: init_def)
  have ex: "fst (is_rate_limited_seq ''10.0.0.1'' ''search'' (replicate 3 (2, 60, 100, 100)) init) =
        [False, False, True]"
    using burst_flags [where W = 60 and now = 100 and rl = init and u = "''10.0.0.1''"
        and e = "''search''" and j = 0 and n = 3 and M = 2, OF _ a0]
    by (simp add: eval_nat_numeral)
  have i: "requests init ''10.0.0.1'' ''answer'' = []"
      "fst (is_rate_limited ''10.0.0.1'' ''answer'' 2 60 100 100 init) = False"
      "fst (get_remaining_requests ''10.0.0.1'' ''answer'' 2 60 100 init) = 2"
    by (simp_all add: init_def fst_is_rate_limited fst_get_remaining_requests)
  have "requests ?rl' ''10.0.0.1'' ''answer'' = requests init ''10.0.0.1'' ''answer''
      \<and> fst (is_rate_limited ''10.0.0.1'' ''answer'' 2 60 100 100 ?rl') =
          fst (is_rate_limited ''10.0.0.1'' ''answer'' 2 60 100 100 init)
      \<and> fst (get_remaining_requests ''10.0.0.1'' ''answer'' 2 60 100 ?rl') =
          fst (get_remaining_requests ''10.0.0.1'' ''answer'' 2 60 100 init)"
    using operation_keys_independent [OF h, where calls = "replicate 3 (2, 60, 100, 100)"
        and rl = init and M' = 2 and W' = 60 and t = 100 and t' = 100,
        THEN conjunct2, THEN conjunct2, THEN conjunct2, unfolded Let_def] .
  then show ?thesis unfolding i using ex by (intro conjI) simp_all
qed

subsection \<open>A quota that is not positive\<close>

lemma is_rate_limited_seq_nonpositive:
  assumes "\<forall>c\<in>set calls. fst c \<le> 0" and "requests rl u e = []"
  shows "fst (is_rate_limited_seq u e calls rl) = replicate (length calls) True
       \<and> requests (snd (is_rate_limited_seq u e calls rl)) u e = []"
  using assms
proof (induction calls arbitrary: rl)
  case Nil
  then show ?case by simp
next
  case (Cons c calls)
  obtain M W t t' where c: "c = (M, W, t, t')" by (cases c)
  let ?r = "is_rate_limited u e M W t t' rl"
  have M: "M \<le> 0" using Cons.prems(1) by (simp add: c)
  have f: "fst ?r" using M by (simp add: fst_is_rate_limited Cons.prems(2))
  have l: "requests (snd ?r) u e = []"
    using M by (simp add: requests_is_rate_limited Cons.prems(2))
  have "\<forall>c\<in>set calls. fst c \<le> 0" using Cons.prems(1) by simp
  from Cons.IH [OF this l] f show ?case
    by (simp add: c split_beta)
qed

text \<open>
  Claim C10. With \<open>max_requests \<le> 0\<close> a call of \<^verbatim>\<open>is_rate_limited\<close> returns
  \<open>True\<close> for every user, endpoint, window, time and state; its state is the cleaned
  one, nothing is appended. From an empty log, every call of a sequence of such calls is
  denied and the log is empty after it. The method has no \<^verbatim>\<open>raise\<close>: the result is
  a flag and a state for every input.
\<close>

theorem nonpositive_quota_denies_all:
  assumes "M \<le> 0" and "\<forall>c\<in>set calls. fst c \<le> 0"
  shows "is_rate_limited u e M W now now' rl = (True, clean_old_requests u e W now rl)
       \<and> requests (snd (is_rate_limited u e M W now now' rl)) u e =
           [t \<leftarrow> requests rl u e. now - t < real_of_int W]
       \<and> (requests rl u e = [] \<longrightarrow>
            fst (is_rate_limited_seq u e calls rl) = replicate (length calls) True
          \<and> requests (snd (is_rate_limited_seq u e calls rl)) u e = [])"
proof (intro conjI impI)
  have le: "M \<le> int (length (requests (clean_old_requests u e W now rl) u e))"
    using assms(1) by simp
  show "is_rate_limited u e M W now now' rl = (True, clean_old_requests u e W now rl)"
    using le by (simp add: is_rate_limited_def Let_def)
  show "requests (snd (is_rate_limited u e M W now now' rl)) u e =
           [t \<leftarrow> requests rl u e. now - t < real_of_int W]"
    using assms(1) by (simp add: requests_is_rate_limited)
  show "fst (is_rate_limited_seq u e calls rl) = replicate (length calls) True"
    if "requests rl u e = []"
    using is_rate_limited_seq_nonpositive [OF assms(2) that] by simp
  show "requests (snd (is_rate_limited_seq u e calls rl)) u e = []"
    if "requests rl u e = []"
    using is_rate_limited_seq_nonpositive [OF assms(2) that] by simp
qed


theorem nonpositive_quota_denies_all_witness:
  "(0::int) \<le> 0 \<and> fst (0::int, 60::int, 1::real, 1::real) \<le> 0
   \<and> fst (- 1::int, 60::int, 2::real, 2::real) \<le> 0
   \<and> requests init ''10.0.0.1'' ''search'' = []
   \<and> is_rate_limited ''10.0.0.1'' ''search'' 0 60 5 5 init =
        (True, clean_old_requests ''10.0.0.1'' ''search'' 60 5 init)
   \<and> fst (is_rate_limited_seq ''10.0.0.1'' ''search'' [(0, 60, 1, 1), (- 1, 60, 2, 2)] init) =
        [True, True]
   \<and> requests (snd (is_rate_limited_seq ''10.0.0.1'' ''search'' [(0, 60, 1, 1), (- 1, 60, 2, 2)] init))
        ''10.0.0.1'' ''search'' = []"
proof -
  have h1: "(0::int) \<le> 0" by simp
  have h2: "\<forall>c\<in>set [(0::int, 60::int, 1::real, 1::real), (- 1, 60, 2, 2)]. fst c \<le> 0" by simp
  have e: "requests init ''10.0.0.1'' ''search'' = []" by (simp add: init_def)
  note th = nonpositive_quota_denies_all [OF h1 h2, where u = "''10.0.0.1''" and e = "''search''"
      and W = 60 and now = 5 and now' = 5 and rl = init]
  have a: "is_rate_limited ''10.0.0.1'' ''search'' 0 60 5 5 init =
        (True, clean_old_requests ''10.0.0.1'' ''search'' 60 5 init)"
    using th by (rule conjunct1)
  have b: "fst (is_rate_limited_seq ''10.0.0.1'' ''search'' [(0, 60, 1, 1), (- 1, 60, 2, 2)] init) =
             replicate (length [(0::int, 60::int, 1::real, 1::real), (- 1, 60, 2, 2)]) True
         \<and> requests (snd (is_rate_limited_seq ''10.0.0.1'' ''search'' [(0, 60, 1, 1), (- 1, 60, 2, 2)] init))
             ''10.0.0.1'' ''search'' = []"
    using th e by blast
  have "replicate (length [(0::int, 60::int, 1::real, 1::real), (- 1, 60, 2, 2)]) True = [True, True]"
    by simp
  with a b e show ?thesis by simp
qed

subsection \<open>Identity resolution\<close>

lemma str_split_first:
  "\<exists>ws. str_split s sep = takeWhile (\<lambda>c. c \<noteq> sep) s # ws"
proof (induction s)
  case Nil
  then show ?case by simp
next
  case (Cons c s)
  then obtain ws where "str_split s sep = takeWhile (\<lambda>c. c \<noteq> sep) s # ws" by blast
  then show ?case by simp
qed

lemma getitem0_str_split:
  "getitem0 (str_split s sep) = Inr (takeWhile (\<lambda>c. c \<noteq> sep) s)"
proof -
  obtain ws where "str_split s sep = takeWhile (\<lambda>c. c \<noteq> sep) s # ws"
    using str_split_first by blast
  then show ?thesis by (simp add: getitem0_def)
qed

lemma get_user_id_forwarded:
  assumes "headers request ''X-Forwarded-For'' = Some v" and "v \<noteq> []"
  shows "get_user_id request = Inr (strip (first_entry v))"
proof -
  from assms(2) obtain c cs where v: "v = c # cs" by (cases v) auto
  show ?thesis
    using assms(1) unfolding v get_user_id_def first_entry_def
    by (simp add: getitem0_str_split del: str_split.simps takeWhile.simps)
qed

lemma get_user_id_not_forwarded:
  assumes "headers request ''X-Forwarded-For'' = None \<or> headers request ''X-Forwarded-For'' = Some []"
  shows "get_user_id request = (case client request of Some a \<Rightarrow> Inr (host a) | None \<Rightarrow> Inr ''unknown'')"
  using assms by (auto simp: get_user_id_def)

lemma strip_first_entry_example: "strip (first_entry '' 203.0.113.7 , 10.0.0.1'') = ''203.0.113.7''"
  by (simp add: strip_def first_entry_def isspace_def)


lemma get_user_id_total: "\<exists>user_id. get_user_id request = Inr user_id"
proof (cases "headers request ''X-Forwarded-For''")
  case None
  then show ?thesis by (simp add: get_user_id_not_forwarded split: option.split)
next
  case (Some v)
  then show ?thesis
    by (cases "v = []")
       (simp_all add: get_user_id_not_forwarded get_user_id_forwarded split: option.split)
qed

text \<open>
  Claim C8. \<^verbatim>\<open>get_user_id\<close> returns a value for every request and raises nothing:
  the subscript \<^verbatim>\<open>[0]\<close> is always in range. When the header
  \<^verbatim>\<open>X-Forwarded-For\<close> is present with a chain, that is with a value that is not the
  empty string, the result is the first comma-separated entry of the value, stripped of
  the white space around it. When the header is absent, or present with the empty
  string (which lists no address and is false in \<^verbatim>\<open>if forwarded:\<close>), the result is
  the host of the peer address if there is one, and \<^verbatim>\<open>"unknown"\<close> if there is
  none.
\<close>

theorem get_user_id_total_and_order:
  "(\<exists>user_id. get_user_id request = Inr user_id)
   \<and> (\<forall>v. headers request ''X-Forwarded-For'' = Some v \<and> v \<noteq> [] \<longrightarrow>
          get_user_id request = Inr (strip (first_entry v)))
   \<and> (headers request ''X-Forwarded-For'' = None \<or> headers request ''X-Forwarded-For'' = Some [] \<longrightarrow>
          (\<forall>a. client request = Some a \<longrightarrow> get_user_id request = Inr (host a))
        \<and> (client request = None \<longrightarrow> get_user_id request = Inr ''unknown''))"
proof (intro conjI allI impI)
  show "\<exists>user_id. get_user_id request = Inr user_id"
  proof (cases "headers request ''X-Forwarded-For''")
    case None
    then show ?thesis
      by (simp add: get_user_id_not_forwarded split: option.split)
  next
    case (Some v)
    show ?thesis
    proof (cases "v = []")
      case True
      with Some show ?thesis
        by (simp add: get_user_id_not_forwarded split: option.split)
    next
      case False
      with Some show ?thesis by (simp add: get_user_id_forwarded)
    qed
  qed
next
  fix v assume "headers request ''X-Forwarded-For'' = Some v \<and> v \<noteq> []"
  then show "get_user_id request = Inr (strip (first_entry v))"
    by (simp add: get_user_id_forwarded)
next
  fix a
  assume "headers request ''X-Forwarded-For'' = None \<or> headers request ''X-Forwarded-For'' = Some []"
    and "client request = Some a"
  then show "get_user_id request = Inr (host a)"
    by (simp add: get_user_id_not_forwarded)
next
  assume "headers request ''X-Forwarded-For'' = None \<or> headers request ''X-Forwarded-For'' = Some []"
    and "client request = None"
  then show "get_user_id request = Inr ''unknown''"
    by (simp add: get_user_id_not_forwarded)
qed

theorem get_user_id_total_and_order_witness:
  "get_user_id \<lparr>headers = [''X-Forwarded-For'' \<mapsto> '' 203.0.113.7 , 10.0.0.1''],
                 client = Some \<lparr>host = ''10.0.0.1''\<rparr>\<rparr> = Inr ''203.0.113.7''
   \<and> get_user_id \<lparr>headers = [''X-Forwarded-For'' \<mapsto> []],
                 client = Some \<lparr>host = ''10.0.0.1''\<rparr>\<rparr> = Inr ''10.0.0.1''
   \<and> get_user_id \<lparr>headers = Map.empty, client = Some \<lparr>host = ''10.0.0.1''\<rparr>\<rparr> = Inr ''10.0.0.1''
   \<and> get_user_id \<lparr>headers = Map.empty, client = None\<rparr> = Inr ''unknown''"
proof -
  let ?r1 = "\<lparr>headers = [''X-Forwarded-For'' \<mapsto> '' 203.0.113.7 , 10.0.0.1''],
              client = Some \<lparr>host = ''10.0.0.1''\<rparr>\<rparr>"
  let ?r2 = "\<lparr>headers = [''X-Forwarded-For'' \<mapsto> []], client = Some \<lparr>host = ''10.0.0.1''\<rparr>\<rparr>"
  let ?r3 = "\<lparr>headers = Map.empty, client = Some \<lparr>host = ''10.0.0.1''\<rparr>\<rparr>"
  let ?r4 = "\<lparr>headers = Map.empty, client = (None :: Address option)\<rparr>"
  have h1: "headers ?r1 ''X-Forwarded-For'' = Some '' 203.0.113.7 , 10.0.0.1''
              \<and> '' 203.0.113.7 , 10.0.0.1'' \<noteq> []"
    by simp
  have "get_user_id ?r1 = Inr (strip (first_entry '' 203.0.113.7 , 10.0.0.1''))"
    using get_user_id_total_and_order [of ?r1] h1 by blast
  then have 1: "get_user_id ?r1 = Inr ''203.0.113.7''"
    by (simp only: strip_first_entry_example)
  have h2: "headers ?r2 ''X-Forwarded-For'' = None \<or> headers ?r2 ''X-Forwarded-For'' = Some []"
      "client ?r2 = Some \<lparr>host = ''10.0.0.1''\<rparr>"
    by simp_all
  have "get_user_id ?r2 = Inr (host \<lparr>host = ''10.0.0.1''\<rparr>)"
    using get_user_id_total_and_order [of ?r2] h2 by blast
  then have 2: "get_user_id ?r2 = Inr ''10.0.0.1''" by simp
  have h3: "headers ?r3 ''X-Forwarded-For'' = None \<or> headers ?r3 ''X-Forwarded-For'' = Some []"
      "client ?r3 = Some \<lparr>host = ''10.0.0.1''\<rparr>"
    by simp_all
  have "get_user_id ?r3 = Inr (host \<lparr>host = ''10.0.0.1''\<rparr>)"
    using get_user_id_total_and_order [of ?r3] h3 by blast
  then have 3: "get_user_id ?r3 = Inr ''10.0.0.1''" by simp
  have h4: "headers ?r4 ''X-Forwarded-For'' = None \<or> headers ?r4 ''X-Forwarded-For'' = Some []"
      "client ?r4 = None"
    by simp_all
  have 4: "get_user_id ?r4 = Inr ''unknown''"
    using get_user_id_total_and_order [of ?r4] h4 by blast
  from 1 2 3 4 show ?thesis by (intro conjI)
qed

subsection \<open>Configurations that are not positive\<close>

lemma str_int_0: "str_int 0 = ''0''"
  by code_simp

text \<open>
  Claim C9, as the code has it. \<^verbatim>\<open>create_rate_limiter\<close> rejects no configuration: for
  every \<open>limit\<close> and \<open>window\<close>, positive or not, it returns the dependency
  (\<^verbatim>\<open>RateLimiter()\<close> takes no configuration at all). At the time of a request no
  configuration error is raised either: a call of the dependency returns the user
  with the headers, or raises the \<^verbatim>\<open>HTTPException\<close> of status 429, and nothing else.
\<close>

theorem configuration_never_rejected:
  "create_rate_limiter limit endpoint window = Inr (rate_limit_dependency limit endpoint window)
   \<and> ((\<exists>user_id hdrs. fst (rate_limit_dependency limit endpoint window clock request rl) =
                         Inr (user_id, hdrs))
      \<or> (\<exists>detail hdrs. fst (rate_limit_dependency limit endpoint window clock request rl) =
                         Inl (HTTPException 429 detail hdrs)))"
proof
  show "create_rate_limiter limit endpoint window = Inr (rate_limit_dependency limit endpoint window)"
    by (simp add: create_rate_limiter_def)
  obtain user_id where u: "get_user_id request = Inr user_id"
    using get_user_id_total by blast
  show "(\<exists>user_id hdrs. fst (rate_limit_dependency limit endpoint window clock request rl) =
                         Inr (user_id, hdrs))
      \<or> (\<exists>detail hdrs. fst (rate_limit_dependency limit endpoint window clock request rl) =
                         Inl (HTTPException 429 detail hdrs))"
  proof (cases "fst (is_rate_limited user_id endpoint limit window (clock 0) (clock 1) rl)")
    case True
    show ?thesis
      unfolding rate_limit_dependency_denied [OF u True] by simp
  next
    case False
    show ?thesis
      unfolding rate_limit_dependency_admitted [OF u False] by simp
  qed
qed


theorem configuration_never_rejected_witness:
  "create_rate_limiter 0 ''search'' 3600 = Inr (rate_limit_dependency 0 ''search'' 3600)
   \<and> fst (rate_limit_dependency 0 ''search'' 3600 (frozen_clock 5)
         \<lparr>headers = Map.empty, client = Some \<lparr>host = ''10.0.0.1''\<rparr>\<rparr> init) =
       Inl (HTTPException 429 ''Rate limit exceeded. Try again in 0 seconds.''
         [(''X-RateLimit-Limit'', ''0''), (''X-RateLimit-Remaining'', ''0''),
          (''X-RateLimit-Reset'', ''0''), (''Retry-After'', ''0'')])"
proof
  show "create_rate_limiter 0 ''search'' 3600 = Inr (rate_limit_dependency 0 ''search'' 3600)"
    using configuration_never_rejected [of 0 "''search''" 3600] by (rule conjunct1)
  let ?r = "\<lparr>headers = Map.empty, client = Some \<lparr>host = ''10.0.0.1''\<rparr>\<rparr>"
  have u: "get_user_id ?r = Inr ''10.0.0.1''" by (rule get_user_id_peer)
  have d: "fst (is_rate_limited ''10.0.0.1'' ''search'' 0 3600 (frozen_clock 5 0) (frozen_clock 5 1) init)"
    by (simp add: fst_is_rate_limited)
  have l: "requests (snd (is_rate_limited ''10.0.0.1'' ''search'' 0 3600
             (frozen_clock 5 0) (frozen_clock 5 1) init)) ''10.0.0.1'' ''search'' = []"
    by (simp add: requests_is_rate_limited init_def)
  have z: "get_reset_time ''10.0.0.1'' ''search'' 3600 (frozen_clock 5 1)
             (snd (is_rate_limited ''10.0.0.1'' ''search'' 0 3600
               (frozen_clock 5 0) (frozen_clock 5 1) init)) = 0"
    unfolding get_reset_time_def l by simp
  have i: "int_of_float 0 = 0" by (simp add: int_of_float_def)
  show "fst (rate_limit_dependency 0 ''search'' 3600 (frozen_clock 5) ?r init) =
       Inl (HTTPException 429 ''Rate limit exceeded. Try again in 0 seconds.''
         [(''X-RateLimit-Limit'', ''0''), (''X-RateLimit-Remaining'', ''0''),
          (''X-RateLimit-Reset'', ''0''), (''Retry-After'', ''0'')])"
    unfolding rate_limit_dependency_denied [OF u d] z i str_int_0 by simp
qed

text \<open>
  So a quota of 0, a window of 0, and a negative quota with a negative window are all
  accepted at construction.
\<close>

theorem nonpositive_configuration_accepted:
  "\<not> isl (create_rate_limiter 0 ''search'' 3600)
   \<and> \<not> isl (create_rate_limiter 20 ''search'' 0)
   \<and> \<not> isl (create_rate_limiter (- 5) ''search'' (- 1))"
  by (simp add: create_rate_limiter_def)

end
